theory Spec2Isabelle
  imports Main "HOL-Library.Word" "HOL-Library.Signed_Division"
begin

section \<open>Go integers\<close>

text \<open>
  The program computes with Go's \<^verbatim>\<open>int\<close>. On the 64-bit platforms Go is usually built
  for, this is a 64-bit two's complement integer: \<^verbatim>\<open>+\<close> and \<^verbatim>\<open>*\<close> wrap around silently,
  \<^verbatim>\<open>/\<close> and \<^verbatim>\<open>%\<close> truncate towards zero (the remainder has the sign of the dividend),
  comparisons are signed, and a zero divisor is a run-time panic. A value is read as a
  number with \<open>sint\<close>.
\<close>

type_synonym go_int = "64 word"

definition go_quo :: "go_int \<Rightarrow> go_int \<Rightarrow> go_int" where
  \<comment> \<open>\<^verbatim>\<open>a / b\<close> for \<open>b \<noteq> 0\<close>\<close>
  "go_quo a b = word_of_int (sint a sdiv sint b)"

definition go_rem :: "go_int \<Rightarrow> go_int \<Rightarrow> go_int" where
  \<comment> \<open>\<^verbatim>\<open>a % b\<close> for \<open>b \<noteq> 0\<close>\<close>
  "go_rem a b = word_of_int (sint a smod sint b)"

datatype panic = DivideByZero | NilDereference

section \<open>The scheduler: \<^verbatim>\<open>sendRequests\<close>, lines 94 and 104 to 111\<close>

definition maxRequestsPerThread :: go_int where
  "maxRequestsPerThread = 20"

text \<open>Line 94: \<^verbatim>\<open>numThreads := (rps / maxRequestsPerThread) + 1\<close>.\<close>

definition numThreads :: "go_int \<Rightarrow> go_int" where
  "numThreads rps = go_quo rps maxRequestsPerThread + 1"

text \<open>
  Lines 105 to 108, for the loop index \<open>i\<close>:
  \<^verbatim>\<open>reqsForThisThread := rps % ((i + 1) * maxRequestsPerThread)\<close>, capped at
  \<^verbatim>\<open>maxRequestsPerThread\<close>. The product is a Go \<^verbatim>\<open>int\<close> and may wrap around.
\<close>

definition reqsForThisThread :: "go_int \<Rightarrow> go_int \<Rightarrow> panic + go_int" where
  "reqsForThisThread rps i =
     (let d = (i + 1) * maxRequestsPerThread in
      if d = 0 then Inl DivideByZero
      else let r = go_rem rps d in
           Inr (if maxRequestsPerThread <s r then maxRequestsPerThread else r))"

text \<open>
  Lines 104 to 111: \<^verbatim>\<open>for i := 0; i < numThreads; i++\<close>. Each iteration starts one worker
  with its batch size; \<open>spawned\<close> collects the batch sizes in the order the workers are
  started.
\<close>

function spawn_loop :: "go_int \<Rightarrow> go_int \<Rightarrow> go_int \<Rightarrow> go_int list \<Rightarrow> panic + go_int list" where
  "spawn_loop rps nt i spawned =
     (if i <s nt
      then (case reqsForThisThread rps i of
              Inl p \<Rightarrow> Inl p
            | Inr n \<Rightarrow> spawn_loop rps nt (i + 1) (spawned @ [n]))
      else Inr spawned)"
  by pat_completeness auto
termination
proof (relation "measure (\<lambda>(rps, nt, i, spawned). nat (sint nt - sint i))")
  show "wf (measure (\<lambda>(rps, nt, i, spawned). nat (sint nt - sint i)))"
    by simp
next
  fix rps nt i :: go_int and spawned :: "go_int list" and n :: go_int
  assume "i <s nt"
  then have lt: "sint i < sint nt"
    by (simp add: word_sless_alt)
  have "- (2 ^ 63) \<le> sint i" "sint nt < 2 ^ 63"
    using sint_ge [of i] sint_lt [of nt] by simp_all
  with lt have "- (2 ^ 63) \<le> sint i + 1" "sint i + 1 < 2 ^ 63"
    by linarith+
  then have "signed_take_bit 63 (sint i + 1) = sint i + 1"
    by (rule signed_take_bit_int_eq_self)
  then have "sint (i + 1) = sint i + 1"
    by (simp add: sint_word_ariths)
  with lt show "((rps, nt, i + 1, spawned @ [n]), (rps, nt, i, spawned))
      \<in> measure (\<lambda>(rps, nt, i, spawned). nat (sint nt - sint i))"
    by simp
qed

declare spawn_loop.simps [simp del]

text \<open>One tick of the timer: the batch sizes of the workers it starts.\<close>

definition tick :: "go_int \<Rightarrow> panic + go_int list" where
  "tick rps = spawn_loop rps (numThreads rps) 0 []"

text \<open>
  The batch size the loop computes for the worker with index \<open>k\<close>, read off
  \<open>reqsForThisThread\<close> where that does not panic.
\<close>

definition batch :: "go_int \<Rightarrow> nat \<Rightarrow> go_int" where
  "batch rps k = projr (reqsForThisThread rps (word_of_nat k))"

section \<open>The workers: \<^verbatim>\<open>sendRequest\<close> and \<^verbatim>\<open>sendNRequests\<close>\<close>

text \<open>
  The code reads one field of the \<^verbatim>\<open>http.Response\<close>. \<^verbatim>\<open>h.Do(req)\<close> returns a pair of a
  response pointer and an error, each of which may be nil: after a connection failure
  the response is nil, and when the redirect policy gives up \<^verbatim>\<open>net/http\<close> returns the last
  response together with the error.
\<close>

record response =
  StatusCode :: go_int

type_synonym error = string

type_synonym do_result = "response option \<times> error option"

text \<open>
  What a worker does that others can see: a call of \<^verbatim>\<open>h.Do\<close>, a completed send on the
  channel \<^verbatim>\<open>fatal\<close>, a completed send on the channel \<^verbatim>\<open>responses\<close>. A call ends by
  returning, by a panic, or never, when it waits for a send that nobody receives.
\<close>

datatype action = DoRequest | SendFatal error | SendOutcome bool

datatype exit = Returned | Panicked panic | Blocked

text \<open>
  \<^verbatim>\<open>fatal <- err\<close> (line 133). The channel is unbuffered and its only receiver is the one
  receive of line 116, so the send completes if the controller is still \<open>waiting\<close> there,
  and never otherwise. The result is the completed send and the new state of the
  controller. What the controller does with the error (lines 117 to 119) and the end of
  the process are not part of this description of a worker.
\<close>

definition send_fatal :: "error \<Rightarrow> bool \<Rightarrow> (action list \<times> bool) option" where
  "send_fatal e waiting = (if waiting then Some ([SendFatal e], False) else None)"

text \<open>
  Lines 137 to 143: the first code of \<^verbatim>\<open>okCodes\<close> equal to the status code sends \<^verbatim>\<open>true\<close>
  and returns; when the range is exhausted, \<^verbatim>\<open>false\<close> is sent. The value is the one sent.
\<close>

fun okCodes_loop :: "go_int list \<Rightarrow> go_int \<Rightarrow> bool" where
  "okCodes_loop [] code = False"
| "okCodes_loop (c # cs) code = (if c = code then True else okCodes_loop cs code)"

text \<open>
  \<^verbatim>\<open>sendRequest\<close>, lines 130 to 145. The error branch of line 132 has no \<^verbatim>\<open>return\<close>: once
  the send of line 133 has completed, control reaches \<^verbatim>\<open>resp.Body.Close()\<close> of line 135,
  which dereferences \<^verbatim>\<open>resp\<close>. The aggregator receives from \<^verbatim>\<open>responses\<close> for as long as
  the process lives, so the sends of lines 139 and 143 complete.
\<close>

definition sendRequest :: "go_int list \<Rightarrow> do_result \<Rightarrow> bool \<Rightarrow> action list \<times> exit \<times> bool" where
  "sendRequest okCodes res waiting =
     (case res of (resp, err) \<Rightarrow>
        (case (case err of None \<Rightarrow> Some ([], waiting) | Some e \<Rightarrow> send_fatal e waiting) of
           None \<Rightarrow> ([DoRequest], Blocked, waiting)
         | Some (sent, waiting') \<Rightarrow>
             (case resp of
                None \<Rightarrow> (DoRequest # sent, Panicked NilDereference, waiting')
              | Some r \<Rightarrow>
                  (DoRequest # sent @ [SendOutcome (okCodes_loop okCodes (StatusCode r))],
                   Returned, waiting'))))"

text \<open>
  \<^verbatim>\<open>sendNRequests\<close>, lines 122 to 127: \<^verbatim>\<open>for i := 0; i < n; i++ { sendRequest(...) }\<close>.
  \<open>reply k\<close> is what the \<open>k\<close>-th call of \<^verbatim>\<open>h.Do\<close> in this worker returns. A panic in
  \<^verbatim>\<open>sendRequest\<close> is not recovered, and a call that never returns keeps the loop from
  going on.
\<close>

function sendNRequests_loop ::
  "go_int list \<Rightarrow> (nat \<Rightarrow> do_result) \<Rightarrow> go_int \<Rightarrow> go_int \<Rightarrow> action list \<Rightarrow> bool
     \<Rightarrow> action list \<times> exit \<times> bool" where
  "sendNRequests_loop okCodes reply n i done waiting =
     (if i <s n
      then (case sendRequest okCodes (reply (nat (sint i))) waiting of
              (acts, x, waiting') \<Rightarrow>
                if x = Returned
                then sendNRequests_loop okCodes reply n (i + 1) (done @ acts) waiting'
                else (done @ acts, x, waiting'))
      else (done, Returned, waiting))"
  by pat_completeness auto
termination
proof (relation "measure (\<lambda>(okCodes, reply, n, i, done, waiting). nat (sint n - sint i))")
  show "wf (measure (\<lambda>(okCodes, reply, n, i, done, waiting). nat (sint n - sint i)))"
    by simp
next
  fix okCodes :: "go_int list" and reply :: "nat \<Rightarrow> do_result" and n i :: go_int
    and "done" acts :: "action list" and waiting waiting' :: bool
  assume "i <s n"
  then have lt: "sint i < sint n"
    by (simp add: word_sless_alt)
  have "- (2 ^ 63) \<le> sint i" "sint n < 2 ^ 63"
    using sint_ge [of i] sint_lt [of n] by simp_all
  with lt have "- (2 ^ 63) \<le> sint i + 1" "sint i + 1 < 2 ^ 63"
    by linarith+
  then have "signed_take_bit 63 (sint i + 1) = sint i + 1"
    by (rule signed_take_bit_int_eq_self)
  then have "sint (i + 1) = sint i + 1"
    by (simp add: sint_word_ariths)
  with lt show "((okCodes, reply, n, i + 1, done @ acts, waiting'),
       (okCodes, reply, n, i, done, waiting))
      \<in> measure (\<lambda>(okCodes, reply, n, i, done, waiting). nat (sint n - sint i))"
    by simp
qed

declare sendNRequests_loop.simps [simp del]

definition sendNRequests ::
  "go_int list \<Rightarrow> (nat \<Rightarrow> do_result) \<Rightarrow> go_int \<Rightarrow> bool \<Rightarrow> action list \<times> exit \<times> bool" where
  "sendNRequests okCodes reply n waiting = sendNRequests_loop okCodes reply n 0 [] waiting"

text \<open>The number of calls of \<^verbatim>\<open>h.Do\<close> among the actions, and the outcomes sent.\<close>

definition requests_issued :: "action list \<Rightarrow> nat" where
  "requests_issued acts = length (filter (\<lambda>a. a = DoRequest) acts)"

fun outcomes :: "action list \<Rightarrow> bool list" where
  "outcomes [] = []"
| "outcomes (SendOutcome b # acts) = b # outcomes acts"
| "outcomes (a # acts) = outcomes acts"

section \<open>The aggregator: lines 60 and 65 to 73\<close>

record counters =
  okCount :: go_int
  errCount :: go_int

definition no_responses :: counters where
  \<comment> \<open>\<^verbatim>\<open>var okCount, errCount int\<close>\<close>
  "no_responses = \<lparr>okCount = 0, errCount = 0\<rparr>"

text \<open>\<^verbatim>\<open>for r := range responses\<close>, on the outcomes in the order they are received.\<close>

fun aggregator :: "counters \<Rightarrow> bool list \<Rightarrow> counters" where
  "aggregator c [] = c"
| "aggregator c (r # rs) =
     aggregator (if r then c\<lparr>okCount := okCount c + 1\<rparr> else c\<lparr>errCount := errCount c + 1\<rparr>) rs"

section \<open>Ticks and their workers, one after the other\<close>

text \<open>
  The workers of a tick are goroutines. The functions below run them in the order in
  which they are started, each to its end before the next: one of the schedules the
  program has. \<open>replies w k\<close> is what the \<open>k\<close>-th call of \<^verbatim>\<open>h.Do\<close> of the \<open>w\<close>-th worker
  returns. A panic of a worker ends the process; a worker that waits forever on
  \<^verbatim>\<open>fatal\<close> does not keep the others from running.
\<close>

fun run_workers ::
  "go_int list \<Rightarrow> (nat \<Rightarrow> nat \<Rightarrow> do_result) \<Rightarrow> nat \<Rightarrow> go_int list \<Rightarrow> bool
     \<Rightarrow> action list \<times> panic option \<times> bool" where
  "run_workers okCodes replies w [] waiting = ([], None, waiting)"
| "run_workers okCodes replies w (n # ns) waiting =
     (case sendNRequests okCodes (replies w) n waiting of
        (acts, x, waiting') \<Rightarrow>
          (case x of
             Panicked p \<Rightarrow> (acts, Some p, waiting')
           | _ \<Rightarrow>
               (case run_workers okCodes replies (Suc w) ns waiting' of
                  (acts', p, waiting'') \<Rightarrow> (acts @ acts', p, waiting''))))"

text \<open>
  \<open>run_ticks okCodes rps replies t k\<close>: the ticks \<open>t\<close>, \<dots>, \<open>t + k - 1\<close> of the loop of lines
  100 to 113, where \<open>replies t\<close> are the replies to the workers of tick \<open>t\<close>.
\<close>

fun run_ticks ::
  "go_int list \<Rightarrow> go_int \<Rightarrow> (nat \<Rightarrow> nat \<Rightarrow> nat \<Rightarrow> do_result) \<Rightarrow> nat \<Rightarrow> nat \<Rightarrow> bool
     \<Rightarrow> action list \<times> panic option \<times> bool" where
  "run_ticks okCodes rps replies t 0 waiting = ([], None, waiting)"
| "run_ticks okCodes rps replies t (Suc k) waiting =
     (case tick rps of
        Inl p \<Rightarrow> ([], Some p, waiting)
      | Inr batches \<Rightarrow>
          (case run_workers okCodes (replies t) 0 batches waiting of
             (acts, Some p, waiting') \<Rightarrow> (acts, Some p, waiting')
           | (acts, None, waiting') \<Rightarrow>
               (case run_ticks okCodes rps replies (Suc t) k waiting' of
                  (acts', p, waiting'') \<Rightarrow> (acts @ acts', p, waiting''))))"

section \<open>Replies of a server, for the examples\<close>

text \<open>
  A server that refuses every connection, and one that answers every request of every
  worker of every tick with 200.
\<close>

definition refused :: "nat \<Rightarrow> do_result" where
  "refused k = (None, Some ''connection refused'')"

definition always_200 :: "nat \<Rightarrow> nat \<Rightarrow> nat \<Rightarrow> do_result" where
  "always_200 t w k = (Some \<lparr>StatusCode = 200\<rparr>, None)"

section \<open>Facts about 64-bit arithmetic\<close>

lemma sint64_range:
  "- 9223372036854775808 \<le> sint (w :: go_int) \<and> sint w < 9223372036854775808"
  using sint_ge [of w] sint_lt [of w] by simp

lemma take_bit63:
  "- 9223372036854775808 \<le> k \<Longrightarrow> k < 9223372036854775808 \<Longrightarrow> signed_take_bit 63 k = (k :: int)"
  by (rule signed_take_bit_int_eq_self) simp_all

lemma sint64_of_int:
  "- 9223372036854775808 \<le> k \<Longrightarrow> k < 9223372036854775808 \<Longrightarrow> sint (word_of_int k :: go_int) = k"
  by (simp add: sint_sbintrunc' take_bit63)

lemma sint64_of_nat:
  "k < 9223372036854775808 \<Longrightarrow> sint (word_of_nat k :: go_int) = int k"
  using sint64_of_int [of "int k"] by simp

lemma sint64_succ:
  assumes "sint (i :: go_int) < sint (n :: go_int)"
  shows "sint (i + 1) = sint i + 1"
proof -
  have "sint (i + 1) = signed_take_bit 63 (sint i + 1)"
    by (simp add: sint_word_ariths)
  also have "\<dots> = sint i + 1"
    using assms sint64_range [of i] sint64_range [of n] by (intro take_bit63) auto
  finally show ?thesis .
qed

lemma word_of_nat_sint: "0 \<le> sint (i :: go_int) \<Longrightarrow> word_of_nat (nat (sint i)) = i"
  by (simp add: of_nat_nat)

section \<open>Facts about the scheduler\<close>

lemma sint_numThreads:
  assumes "0 \<le> sint (rps :: go_int)"
  shows "sint (numThreads rps) = sint rps div 20 + 1"
proof -
  have q: "sint rps sdiv 20 = sint rps div 20"
    using assms by (simp add: signed_divide_int_def sgn_if)
  have r: "sint rps div 20 \<le> sint rps" "0 \<le> sint rps div 20"
    using assms by linarith+
  have s: "sint (go_quo rps maxRequestsPerThread) = sint rps div 20"
    unfolding go_quo_def maxRequestsPerThread_def using assms r q sint64_range [of rps]
    by (simp add: sint64_of_int)
  have "sint (numThreads rps) = signed_take_bit 63 (sint rps div 20 + 1)"
    unfolding numThreads_def by (simp add: sint_word_ariths s)
  also have "\<dots> = sint rps div 20 + 1"
    using r sint64_range [of rps] by (intro take_bit63) linarith+
  finally show ?thesis .
qed

lemma sint_divisor:
  assumes "0 \<le> sint (i :: go_int)" "(sint i + 1) * 20 < 9223372036854775808"
  shows "sint ((i + 1) * maxRequestsPerThread) = (sint i + 1) * 20"
proof -
  have "sint (i + 1) = sint i + 1"
    using assms sint64_range [of i] by (simp add: sint_word_ariths take_bit63)
  then show ?thesis
    using assms by (simp add: maxRequestsPerThread_def sint_word_ariths take_bit63)
qed

lemma sint_divisor_wrapped:
  assumes "0 \<le> sint (i :: go_int)" "9223372036854775808 \<le> (sint i + 1) * 20"
    "(sint i + 1) * 20 < 18446744073709551616"
  shows "sint ((i + 1) * maxRequestsPerThread) = (sint i + 1) * 20 - 18446744073709551616"
proof -
  define K where "K = (sint i + 1) * 20"
  have d: "(i + 1) * maxRequestsPerThread = (word_of_int K :: go_int)"
    by (simp add: K_def maxRequestsPerThread_def)
  have "sint (word_of_int K :: go_int)
      = (K + 9223372036854775808) mod 18446744073709551616 - 9223372036854775808"
    using int_word_sint [of K, where 'a = 64] by simp
  moreover have "(K + 9223372036854775808) mod 18446744073709551616 = K - 9223372036854775808"
  proof -
    have "K + 9223372036854775808 = (K - 9223372036854775808) + 18446744073709551616"
      by simp
    then have "(K + 9223372036854775808) mod 18446744073709551616
        = (K - 9223372036854775808) mod 18446744073709551616"
      by (simp only: mod_add_self2)
    also have "\<dots> = K - 9223372036854775808"
      using assms unfolding K_def [symmetric] by (intro mod_pos_pos_trivial) simp_all
    finally show ?thesis .
  qed
  ultimately show ?thesis unfolding d K_def by simp
qed

lemma sint_go_rem:
  assumes "0 \<le> sint (a :: go_int)" "sint (b :: go_int) \<noteq> 0"
  shows "sint (go_rem a b) = sint a mod \<bar>sint b\<bar>"
proof -
  have m: "sint a smod sint b = sint a mod \<bar>sint b\<bar>"
    using assms by (cases "sint a = 0") (simp_all add: signed_modulo_int_def sgn_if)
  have "0 \<le> sint a mod \<bar>sint b\<bar>" "sint a mod \<bar>sint b\<bar> \<le> sint a"
    using assms by (simp_all add: zmod_le_nonneg_dividend)
  then show ?thesis
    unfolding go_rem_def m using sint64_range [of a] by (intro sint64_of_int) linarith+
qed

lemma reqsForThisThread_value:
  assumes "0 \<le> sint (rps :: go_int)" "sint ((i + 1) * maxRequestsPerThread) \<noteq> 0"
  shows "\<exists>n. reqsForThisThread rps i = Inr n \<and>
           sint n = min 20 (sint rps mod \<bar>sint ((i + 1) * maxRequestsPerThread)\<bar>)"
proof -
  have nz: "(i + 1) * maxRequestsPerThread \<noteq> 0" using assms(2) by auto
  show ?thesis
    using nz sint_go_rem [OF assms]
    by (simp add: reqsForThisThread_def Let_def word_sless_alt maxRequestsPerThread_def min_def)
qed

lemma succ_times_cap_le:
  "(x :: int) \<le> q \<Longrightarrow> q * 20 + m = a \<Longrightarrow> 0 \<le> m \<Longrightarrow> (x + 1) * 20 \<le> a + 20"
  by (auto simp: algebra_simps)

lemma divisor_cases:
  assumes "0 \<le> sint (rps :: go_int)" "0 \<le> sint (i :: go_int)" "sint i < sint (numThreads rps)"
  shows "sint ((i + 1) * maxRequestsPerThread) = (sint i + 1) * 20 \<or>
         sint ((i + 1) * maxRequestsPerThread) = (sint i + 1) * 20 - 18446744073709551616"
    and "20 \<le> (sint i + 1) * 20" and "(sint i + 1) * 20 \<le> sint rps + 20"
proof -
  have "sint i \<le> sint rps div 20" using assms sint_numThreads [of rps] by simp
  moreover have "sint rps div 20 * 20 + sint rps mod 20 = sint rps" "0 \<le> sint rps mod 20"
    by simp_all
  ultimately show b: "(sint i + 1) * 20 \<le> sint rps + 20" by (rule succ_times_cap_le)
  show "20 \<le> (sint i + 1) * 20" using assms(2) by simp
  show "sint ((i + 1) * maxRequestsPerThread) = (sint i + 1) * 20 \<or>
         sint ((i + 1) * maxRequestsPerThread) = (sint i + 1) * 20 - 18446744073709551616"
  proof (cases "(sint i + 1) * 20 < 9223372036854775808")
    case True
    then show ?thesis using sint_divisor [OF assms(2)] by simp
  next
    case False
    moreover have "(sint i + 1) * 20 < 18446744073709551616"
      using b sint64_range [of rps] by linarith
    ultimately show ?thesis using sint_divisor_wrapped [OF assms(2)] by simp
  qed
qed

lemma reqsForThisThread_ok:
  assumes "0 \<le> sint (rps :: go_int)" "0 \<le> sint (i :: go_int)" "sint i < sint (numThreads rps)"
  shows "\<exists>n. reqsForThisThread rps i = Inr n \<and> 0 \<le> sint n \<and> sint n \<le> 20"
proof -
  have nz: "sint ((i + 1) * maxRequestsPerThread) \<noteq> 0"
    using divisor_cases [OF assms] sint64_range [of rps] by linarith
  from reqsForThisThread_value [OF assms(1) this] obtain n where
    n: "reqsForThisThread rps i = Inr n"
       "sint n = min 20 (sint rps mod \<bar>sint ((i + 1) * maxRequestsPerThread)\<bar>)"
    by blast
  have "0 \<le> sint rps mod \<bar>sint ((i + 1) * maxRequestsPerThread)\<bar>"
    using nz by simp
  then show ?thesis using n by auto
qed

lemma reqsForThisThread_exact:
  assumes "0 \<le> sint (rps :: go_int)" "0 \<le> sint (i :: go_int)"
    "(sint i + 1) * 20 < 9223372036854775808"
  shows "\<exists>n. reqsForThisThread rps i = Inr n \<and>
           sint n = min 20 (sint rps mod ((sint i + 1) * 20))"
proof -
  have d: "sint ((i + 1) * maxRequestsPerThread) = (sint i + 1) * 20"
    using sint_divisor [OF assms(2,3)] .
  then have "sint ((i + 1) * maxRequestsPerThread) \<noteq> 0" using assms(2) by simp
  from reqsForThisThread_value [OF assms(1) this] show ?thesis
    unfolding d using assms(2) by simp
qed

lemma spawn_loop_eq:
  "0 \<le> sint rps \<Longrightarrow> nt = numThreads rps \<Longrightarrow> 0 \<le> sint i \<Longrightarrow> sint i \<le> sint nt \<Longrightarrow>
   spawn_loop rps nt i spawned =
     Inr (spawned @ map (batch rps) [nat (sint i)..<nat (sint nt)])"
proof (induction rps nt i spawned rule: spawn_loop.induct)
  case (1 rps nt i spawned)
  show ?case
  proof (cases "i <s nt")
    case False
    with "1.prems" have "sint i = sint nt" by (simp add: word_sless_alt)
    with False show ?thesis by (subst spawn_loop.simps) simp
  next
    case True
    then have lt: "sint i < sint nt" by (simp add: word_sless_alt)
    from reqsForThisThread_ok [OF "1.prems"(1,3)] lt "1.prems"(2) obtain n where
      n: "reqsForThisThread rps i = Inr n" by blast
    have s: "sint (i + 1) = sint i + 1" using lt by (rule sint64_succ)
    have b: "batch rps (nat (sint i)) = n"
      using n "1.prems"(3) by (simp add: batch_def word_of_nat_sint)
    have "spawn_loop rps nt (i + 1) (spawned @ [n]) =
        Inr ((spawned @ [n]) @ map (batch rps) [nat (sint (i + 1))..<nat (sint nt)])"
    proof -
      have "0 \<le> sint (i + 1)" "sint (i + 1) \<le> sint nt"
        using "1.prems"(3) lt s by linarith+
      then show ?thesis by (rule "1.IH" [OF True n "1.prems"(1,2)])
    qed
    moreover have "[nat (sint i)..<nat (sint nt)] =
        nat (sint i) # [nat (sint (i + 1))..<nat (sint nt)]"
    proof -
      have "nat (sint i) < nat (sint nt)" using lt "1.prems"(3) by linarith
      moreover have "Suc (nat (sint i)) = nat (sint (i + 1))" using "1.prems"(3) s by linarith
      ultimately show ?thesis by (simp only: upt_conv_Cons)
    qed
    ultimately show ?thesis
      using True n b by (subst spawn_loop.simps) simp
  qed
qed

lemma tick_eq:
  assumes "0 \<le> sint rps"
  shows "tick rps = Inr (map (batch rps) [0..<nat (sint rps div 20 + 1)])"
  using spawn_loop_eq [of rps "numThreads rps" 0 "[]"] assms sint_numThreads [OF assms]
  by (simp add: tick_def)

lemma batch_index:
  assumes "0 \<le> sint (rps :: go_int)" "k < nat (sint rps div 20 + 1)"
  shows "sint (word_of_nat k :: go_int) = int k"
    and "sint (word_of_nat k :: go_int) < sint (numThreads rps)"
proof -
  have "sint rps div 20 \<le> sint rps" using assms(1) by linarith
  then have "k < 9223372036854775808"
    using assms sint64_range [of rps] by linarith
  then show s: "sint (word_of_nat k :: go_int) = int k" by (rule sint64_of_nat)
  show "sint (word_of_nat k :: go_int) < sint (numThreads rps)"
    unfolding s sint_numThreads [OF assms(1)] using assms(2) by linarith
qed

lemma batch_le_cap:
  assumes "0 \<le> sint (rps :: go_int)" "k < nat (sint rps div 20 + 1)"
  shows "0 \<le> sint (batch rps k) \<and> sint (batch rps k) \<le> 20"
proof -
  have "0 \<le> sint (word_of_nat k :: go_int)" using batch_index(1) [OF assms] by simp
  from reqsForThisThread_ok [OF assms(1) this batch_index(2) [OF assms]]
  show ?thesis by (auto simp: batch_def)
qed

lemma batch_exact:
  assumes "0 \<le> sint (rps :: go_int)" "k < nat (sint rps div 20 + 1)"
    "(int k + 1) * 20 < 9223372036854775808"
  shows "sint (batch rps k) = min 20 (sint rps mod ((int k + 1) * 20))"
proof -
  have i: "sint (word_of_nat k :: go_int) = int k" using batch_index(1) [OF assms(1,2)] .
  have "0 \<le> sint (word_of_nat k :: go_int)" "(sint (word_of_nat k :: go_int) + 1) * 20 < 9223372036854775808"
    using assms(3) unfolding i by simp_all
  from reqsForThisThread_exact [OF assms(1) this]
  show ?thesis unfolding i by (auto simp: batch_def)
qed

lemma last_divisor_fits:
  assumes "r \<le> (9223372036854775799 :: int)" "int k < r div 20 + 1"
  shows "(int k + 1) * 20 < 9223372036854775808"
proof -
  have "r div 20 \<le> 9223372036854775799 div 20" using assms(1) by (rule zdiv_mono1) simp
  then have "r div 20 \<le> 461168601842738789" by simp
  with assms(2) have "int k + 1 \<le> 461168601842738790" by linarith
  then have "(int k + 1) * 20 \<le> 461168601842738790 * 20" by (rule mult_right_mono) simp
  then show ?thesis by simp
qed

text \<open>
  Claim C1, as the code has it. For every target rate \<open>R \<ge> 0\<close> a tick starts exactly
  \<open>\<lfloor>R / 20\<rfloor> + 1\<close> workers without a panic, and no batch size exceeds 20. The batch
  size of the worker with index \<open>i\<close> is \<open>min 20 (R mod ((i + 1) * 20))\<close> for every \<open>i\<close>
  when \<open>R \<le> 2\<^sup>6\<^sup>3 - 9\<close>, that is, when no product \<open>(i + 1) * 20\<close> of the loop exceeds the
  largest \<^verbatim>\<open>int\<close>.
\<close>

theorem tick_partition:
  assumes "0 \<le> sint R"
  shows "\<exists>bs. tick R = Inr bs \<and> int (length bs) = sint R div 20 + 1 \<and>
           (\<forall>b \<in> set bs. sint b \<le> 20) \<and>
           (sint R \<le> 9223372036854775799 \<longrightarrow>
              (\<forall>i < length bs. sint (bs ! i) = min 20 (sint R mod ((int i + 1) * 20))))"
proof -
  define N where "N = nat (sint R div 20 + 1)"
  define bs where "bs = map (batch R) [0..<N]"
  have t: "tick R = Inr bs"
    unfolding bs_def N_def using assms by (rule tick_eq)
  have "0 \<le> sint R div 20" using assms by linarith
  then have len: "int (length bs) = sint R div 20 + 1"
    by (simp add: bs_def N_def)
  have cap: "\<forall>b \<in> set bs. sint b \<le> 20"
  proof
    fix b assume "b \<in> set bs"
    then obtain k where "k < N" "b = batch R k" by (auto simp: bs_def)
    then show "sint b \<le> 20" using batch_le_cap [OF assms, of k] by (simp add: N_def)
  qed
  have exact: "\<forall>i < length bs. sint (bs ! i) = min 20 (sint R mod ((int i + 1) * 20))"
    if small: "sint R \<le> 9223372036854775799"
  proof (intro allI impI)
    fix i assume "i < length bs"
    then have i: "i < N" by (simp add: bs_def)
    then have "int i < sint R div 20 + 1" unfolding N_def by linarith
    with small have "(int i + 1) * 20 < 9223372036854775808" by (rule last_divisor_fits)
    then have "sint (batch R i) = min 20 (sint R mod ((int i + 1) * 20))"
      using i unfolding N_def by (intro batch_exact [OF assms])
    then show "sint (bs ! i) = min 20 (sint R mod ((int i + 1) * 20))"
      using i by (simp add: bs_def)
  qed
  from t len cap exact show ?thesis by blast
qed

text \<open>The theorem at \<open>R = 45\<close>: three workers, with 5, 5 and 20 requests.\<close>

theorem tick_partition_witness:
  "0 \<le> sint (45 :: go_int) \<and> tick 45 = Inr [5, 5, 20] \<and>
   int (length [5, 5, 20 :: go_int]) = sint (45 :: go_int) div 20 + 1 \<and>
   sint (45 :: go_int) \<le> 9223372036854775799 \<and>
   sint ([5, 5, 20 :: go_int] ! 2) = min 20 (sint (45 :: go_int) mod ((int 2 + 1) * 20))"
proof -
  have t: "tick 45 = Inr [5, 5, 20]" by code_simp
  have h: "0 \<le> sint (45 :: go_int)" by simp
  from tick_partition [OF h] show ?thesis unfolding t by simp
qed

text \<open>
  At \<open>R = 2\<^sup>6\<^sup>3 - 1\<close> the last worker has index 461168601842738790, and the product
  \<open>(i + 1) * 20\<close> wraps around to \<open>- 9223372036854775796\<close>: the code computes the batch
  size 11, where \<open>min 20 (R mod ((i + 1) * 20))\<close> is 20.
\<close>

theorem tick_partition_counterexample:
  "0 \<le> sint (9223372036854775807 :: go_int) \<and>
   \<not> isl (tick 9223372036854775807) \<and>
   461168601842738790 < length (projr (tick 9223372036854775807)) \<and>
   sint (projr (tick 9223372036854775807) ! 461168601842738790) = 11 \<and>
   min 20 (sint (9223372036854775807 :: go_int) mod ((int 461168601842738790 + 1) * 20)) = 20"
proof -
  have h: "0 \<le> sint (9223372036854775807 :: go_int)" by simp
  have d: "sint (9223372036854775807 :: go_int) div 20 + 1 = 461168601842738791" by simp
  have t: "tick 9223372036854775807 =
      Inr (map (batch 9223372036854775807) [0..<nat 461168601842738791])"
    using tick_eq [OF h] unfolding d .
  have b: "sint (batch 9223372036854775807 461168601842738790) = 11"
    by (simp add: batch_def reqsForThisThread_def maxRequestsPerThread_def go_rem_def
        signed_modulo_int_def word_sless_alt)
  show ?thesis unfolding t using b by simp
qed

section \<open>Facts about the loop of a worker\<close>

lemma sendNRequests_loop_done:
  "\<not> i <s n \<Longrightarrow> sendNRequests_loop okCodes reply n i done waiting = (done, Returned, waiting)"
  by (subst sendNRequests_loop.simps) simp

lemma sendNRequests_loop_step:
  "i <s n \<Longrightarrow> sendNRequests_loop okCodes reply n i done waiting =
     (case sendRequest okCodes (reply (nat (sint i))) waiting of
        (acts, x, waiting') \<Rightarrow>
          if x = Returned
          then sendNRequests_loop okCodes reply n (i + 1) (done @ acts) waiting'
          else (done @ acts, x, waiting'))"
  by (subst sendNRequests_loop.simps) simp

lemma sendNRequests_none:
  "sint n \<le> 0 \<Longrightarrow> sendNRequests okCodes reply n waiting = ([], Returned, waiting)"
  by (simp add: sendNRequests_def sendNRequests_loop_done word_sless_alt)

section \<open>The scheduler at small rates\<close>

lemma tick_0: "tick 0 = Inr [0]"
  by code_simp

lemma run_ticks_0:
  "run_ticks okCodes 0 replies t k waiting = ([], None, waiting)"
  by (induction k arbitrary: t) (simp_all add: tick_0 sendNRequests_none)

text \<open>
  Claim C9. At the target rate 0 a tick starts exactly one worker, with batch size 0; that
  worker makes no call of \<^verbatim>\<open>h.Do\<close>, and no number of ticks issues a request.
\<close>

theorem zero_rate_no_requests:
  "tick 0 = Inr [0] \<and>
   sendNRequests okCodes reply 0 waiting = ([], Returned, waiting) \<and>
   run_ticks okCodes 0 replies t k waiting = ([], None, waiting) \<and>
   requests_issued (fst (run_ticks okCodes 0 replies t k waiting)) = 0"
  by (simp add: tick_0 run_ticks_0 sendNRequests_none requests_issued_def)

text \<open>
  Claim C3. There is a target rate at which the batch sizes of a tick do not sum to the
  rate: at 40 they are 0, 0 and 20.
\<close>

theorem partition_not_exact:
  "\<exists>R bs. 0 \<le> sint R \<and> tick R = Inr bs \<and> sum_list (map sint bs) \<noteq> sint R"
proof -
  have "tick 40 = Inr [0, 0, 20]" by code_simp
  moreover have "sum_list (map sint [0, 0, 20 :: go_int]) \<noteq> sint (40 :: go_int)" by simp
  moreover have "0 \<le> sint (40 :: go_int)" by simp
  ultimately show ?thesis by blast
qed

lemma tick_below_cap:
  assumes "0 \<le> sint (R :: go_int)" "sint R < 20"
  shows "tick R = Inr [batch R 0] \<and> sint (batch R 0) = sint R"
proof -
  have d: "sint R div 20 = 0" using assms by simp
  have "sint (batch R 0) = min 20 (sint R mod ((int 0 + 1) * 20))"
    using assms by (intro batch_exact) (simp_all add: d)
  then show ?thesis using tick_eq [OF assms(1)] assms by (simp add: d)
qed

lemma div_mod_second_twenty:
  "20 \<le> (x :: int) \<Longrightarrow> x < 40 \<Longrightarrow> x div 20 = 1 \<and> x mod 20 = x - 20"
  by presburger

lemma tick_below_twice_cap:
  assumes "20 \<le> sint (R :: go_int)" "sint R < 40"
  shows "tick R = Inr [batch R 0, batch R 1] \<and> sint (batch R 0) = sint R - 20 \<and>
         sint (batch R 1) = 20"
proof -
  have nn: "0 \<le> sint R" using assms by simp
  have d: "sint R div 20 = 1" and m: "sint R mod 20 = sint R - 20"
    using div_mod_second_twenty [OF assms] by simp_all
  have m': "sint R mod 40 = sint R" using assms by simp
  have "sint (batch R 0) = min 20 (sint R mod ((int 0 + 1) * 20))"
    using nn by (intro batch_exact) (simp_all add: d)
  moreover have "sint (batch R 1) = min 20 (sint R mod ((int 1 + 1) * 20))"
    using nn by (intro batch_exact) (simp_all add: d)
  moreover have "[0..<nat (sint R div 20 + 1)] = [0, 1]"
    by (simp add: d upt_rec)
  ultimately show ?thesis using tick_eq [OF nn] assms by (simp add: m m')
qed

text \<open>
  Claim C10. For every target rate from 0 to 39 the batch sizes of a tick sum to the
  rate; at 40 they are 0, 0 and 20 and sum to 20.
\<close>

theorem partition_exact_below_40:
  "(\<forall>R. 0 \<le> sint R \<and> sint R \<le> 39 \<longrightarrow>
      (\<exists>bs. tick R = Inr bs \<and> sum_list (map sint bs) = sint R)) \<and>
   tick 40 = Inr [0, 0, 20] \<and> sum_list (map sint [0, 0, 20 :: go_int]) = 20"
proof (intro conjI allI impI)
  fix R :: go_int
  assume r: "0 \<le> sint R \<and> sint R \<le> 39"
  show "\<exists>bs. tick R = Inr bs \<and> sum_list (map sint bs) = sint R"
  proof (cases "sint R < 20")
    case True
    with r tick_below_cap [of R] show ?thesis by auto
  next
    case False
    with r tick_below_twice_cap [of R] show ?thesis by auto
  qed
next
  show "tick 40 = Inr [0, 0, 20]" by code_simp
  show "sum_list (map sint [0, 0, 20 :: go_int]) = 20" by simp
qed

text \<open>The theorem at \<open>R = 25\<close>: two workers, with 5 and 20 requests.\<close>

theorem partition_exact_below_40_witness:
  "0 \<le> sint (25 :: go_int) \<and> sint (25 :: go_int) \<le> 39 \<and>
   tick 25 = Inr [5, 20] \<and> sum_list (map sint [5, 20 :: go_int]) = sint (25 :: go_int)"
proof -
  have t: "tick 25 = Inr [5, 20]" by code_simp
  from partition_exact_below_40 have
    "0 \<le> sint (25 :: go_int) \<and> sint (25 :: go_int) \<le> 39 \<longrightarrow>
      (\<exists>bs. tick 25 = Inr bs \<and> sum_list (map sint bs) = sint (25 :: go_int))"
    by blast
  then show ?thesis unfolding t by simp
qed

section \<open>Facts about the aggregator\<close>

lemma aggregator_counts:
  "aggregator c rs =
     \<lparr>okCount = okCount c + word_of_nat (length (filter id rs)),
      errCount = errCount c + word_of_nat (length (filter Not rs))\<rparr>"
  by (induction rs arbitrary: c) simp_all

lemma aggregator_from_zero:
  "okCount (aggregator no_responses rs) = word_of_nat (length (filter id rs)) \<and>
   errCount (aggregator no_responses rs) = word_of_nat (length (filter Not rs))"
  by (simp add: aggregator_counts no_responses_def)

lemma length_filter_Not: "length (filter Not rs) = length rs - length (filter id rs)"
  by (induction rs) (auto simp: Suc_diff_le)

text \<open>
  Claim C4, as the code has it. After the aggregator has consumed \<open>N\<close> outcomes of which
  \<open>k\<close> are true, \<^verbatim>\<open>okCount\<close> is \<open>k\<close> and \<^verbatim>\<open>errCount\<close> is \<open>N - k\<close>, and they sum to \<open>N\<close>,
  provided each count fits the counter: \<open>k < 2\<^sup>6\<^sup>3\<close> and \<open>N - k < 2\<^sup>6\<^sup>3\<close>.
\<close>

theorem aggregator_counts_outcomes:
  assumes "N = length rs" "k = length (filter id rs)"
    "k < 9223372036854775808" "N - k < 9223372036854775808"
  shows "sint (okCount (aggregator no_responses rs)) = int k \<and>
         sint (errCount (aggregator no_responses rs)) = int N - int k \<and>
         sint (okCount (aggregator no_responses rs))
           + sint (errCount (aggregator no_responses rs)) = int N"
proof -
  have le: "k \<le> N" unfolding assms(1,2) by simp
  have "sint (okCount (aggregator no_responses rs)) = int k"
    using aggregator_from_zero [of rs] assms(3) by (simp add: assms(2) sint64_of_nat)
  moreover have "sint (errCount (aggregator no_responses rs)) = int (N - k)"
  proof -
    have "errCount (aggregator no_responses rs) = word_of_nat (N - k)"
      using aggregator_from_zero [of rs] by (simp only: assms(1,2) length_filter_Not)
    then show ?thesis using assms(4) by (simp only: sint64_of_nat)
  qed
  ultimately show ?thesis using le by simp
qed

text \<open>The theorem on the outcomes true, false, true.\<close>

theorem aggregator_counts_outcomes_witness:
  "(3 :: nat) = length [True, False, True] \<and> (2 :: nat) = length (filter id [True, False, True]) \<and>
   sint (okCount (aggregator no_responses [True, False, True])) = 2 \<and>
   sint (errCount (aggregator no_responses [True, False, True])) = 1"
  using aggregator_counts_outcomes [of 3 "[True, False, True]" 2] by simp

text \<open>
  After \<open>2\<^sup>6\<^sup>3\<close> outcomes that are all true, \<^verbatim>\<open>okCount\<close> has wrapped around to \<open>- 2\<^sup>6\<^sup>3\<close>.
\<close>

theorem aggregator_counts_outcomes_counterexample:
  "length (filter id (replicate 9223372036854775808 True)) = 9223372036854775808 \<and>
   sint (okCount (aggregator no_responses (replicate 9223372036854775808 True)))
     = - 9223372036854775808"
proof -
  have f: "filter id (replicate n True) = replicate n True" for n
    by (induction n) simp_all
  have "length (filter id (replicate 9223372036854775808 True)) = 9223372036854775808"
    unfolding f by (simp only: length_replicate)
  moreover have "okCount (aggregator no_responses (replicate 9223372036854775808 True))
      = word_of_nat 9223372036854775808"
    using aggregator_from_zero [of "replicate 9223372036854775808 True"]
    unfolding f by (simp only: length_replicate)
  moreover have "sint (word_of_nat 9223372036854775808 :: go_int) = - 9223372036854775808"
    by simp
  ultimately show ?thesis by (simp only:)
qed

section \<open>Facts about one request\<close>

lemma okCodes_loop_iff: "okCodes_loop okCodes code \<longleftrightarrow> code \<in> set okCodes"
  by (induction okCodes) auto

lemma sendRequest_completed:
  "sendRequest okCodes (Some r, None) waiting =
     ([DoRequest, SendOutcome (StatusCode r \<in> set okCodes)], Returned, waiting)"
  by (simp add: sendRequest_def okCodes_loop_iff)

lemma sendRequest_error_response:
  "sendRequest okCodes (Some r, Some e) True =
     ([DoRequest, SendFatal e, SendOutcome (StatusCode r \<in> set okCodes)], Returned, False)"
  by (simp add: sendRequest_def send_fatal_def okCodes_loop_iff)

lemma sendRequest_error_nil:
  "sendRequest okCodes (None, Some e) True =
     ([DoRequest, SendFatal e], Panicked NilDereference, False)"
  by (simp add: sendRequest_def send_fatal_def)

lemma requests_issued_append:
  "requests_issued (as @ bs) = requests_issued as + requests_issued bs"
  by (simp add: requests_issued_def)

lemma outcomes_append: "outcomes (as @ bs) = outcomes as @ outcomes bs"
  by (induction as rule: outcomes.induct) simp_all

section \<open>Facts about a batch\<close>

lemma sendNRequests_loop_completed:
  assumes "0 \<le> sint i" "sint i \<le> sint j" "sint j \<le> sint n"
    "\<forall>k \<in> {nat (sint i)..<nat (sint j)}. \<exists>r. reply k = (Some r, None)"
  shows "sendNRequests_loop okCodes reply n i done w =
         sendNRequests_loop okCodes reply n j
           (done @ concat (map (\<lambda>k. fst (sendRequest okCodes (reply k) w))
              [nat (sint i)..<nat (sint j)])) w"
  using assms
proof (induction "nat (sint j - sint i)" arbitrary: i "done")
  case 0
  then have "sint i = sint j" by simp
  then have "i = j" by (rule signed_word_eqI)
  then show ?case by simp
next
  case (Suc m)
  then have lt: "sint i < sint j" by linarith
  then have ltn: "i <s n" using Suc.prems(3) by (simp add: word_sless_alt)
  have s: "sint (i + 1) = sint i + 1" using lt by (rule sint64_succ)
  have "nat (sint i) \<in> {nat (sint i)..<nat (sint j)}" using lt Suc.prems(1) by simp
  with Suc.prems(4) obtain r where r: "reply (nat (sint i)) = (Some r, None)" by blast
  have u: "[nat (sint i)..<nat (sint j)] = nat (sint i) # [nat (sint (i + 1))..<nat (sint j)]"
  proof -
    have "nat (sint i) < nat (sint j)" using lt Suc.prems(1) by linarith
    moreover have "Suc (nat (sint i)) = nat (sint (i + 1))" using Suc.prems(1) s by linarith
    ultimately show ?thesis by (simp only: upt_conv_Cons)
  qed
  have ih: "sendNRequests_loop okCodes reply n (i + 1) (done @ fst (sendRequest okCodes (reply (nat (sint i))) w)) w =
      sendNRequests_loop okCodes reply n j
        ((done @ fst (sendRequest okCodes (reply (nat (sint i))) w)) @
          concat (map (\<lambda>k. fst (sendRequest okCodes (reply k) w)) [nat (sint (i + 1))..<nat (sint j)])) w"
  proof (rule Suc.hyps(1))
    show "m = nat (sint j - sint (i + 1))" using Suc.hyps(2) s by linarith
    show "0 \<le> sint (i + 1)" using Suc.prems(1) s by linarith
    show "sint (i + 1) \<le> sint j" using lt s by linarith
    show "sint j \<le> sint n" by (rule Suc.prems(3))
    show "\<forall>k \<in> {nat (sint (i + 1))..<nat (sint j)}. \<exists>r. reply k = (Some r, None)"
      using Suc.prems(4) Suc.prems(1) s by auto
  qed
  show ?case
    unfolding sendNRequests_loop_step [OF ltn] u
    using ih by (simp add: r sendRequest_completed)
qed

lemma sendNRequests_completed:
  assumes "0 \<le> sint n" "\<forall>k < nat (sint n). \<exists>r. reply k = (Some r, None)"
  shows "sendNRequests okCodes reply n w =
         (concat (map (\<lambda>k. fst (sendRequest okCodes (reply k) w)) [0..<nat (sint n)]), Returned, w)"
proof -
  have "sendNRequests_loop okCodes reply n 0 [] w =
      sendNRequests_loop okCodes reply n n
        ([] @ concat (map (\<lambda>k. fst (sendRequest okCodes (reply k) w)) [nat (sint (0 :: go_int))..<nat (sint n)])) w"
    using assms by (intro sendNRequests_loop_completed) simp_all
  then show ?thesis
    by (simp add: sendNRequests_def sendNRequests_loop_done word_sless_alt)
qed

section \<open>The claims about the workers\<close>

text \<open>
  Claim C5. When \<^verbatim>\<open>h.Do\<close> returns a response and no error, \<^verbatim>\<open>sendRequest\<close> sends exactly
  one outcome, which is true if and only if the status code of the response is among
  \<^verbatim>\<open>okCodes\<close>; two lists with the same codes, in whatever order, give the same result.
\<close>

theorem outcome_is_membership:
  "sendRequest okCodes (Some r, None) waiting =
     ([DoRequest, SendOutcome (StatusCode r \<in> set okCodes)], Returned, waiting) \<and>
   (set okCodes' = set okCodes \<longrightarrow>
      sendRequest okCodes' (Some r, None) waiting = sendRequest okCodes (Some r, None) waiting)"
  by (simp add: sendRequest_completed)

text \<open>The theorem on the codes 200 and 204 in both orders, for the replies 204 and 404.\<close>

theorem outcome_is_membership_witness:
  "set [204, 200 :: go_int] = set [200, 204] \<and>
   sendRequest [204, 200] (Some \<lparr>StatusCode = 204\<rparr>, None) True =
     sendRequest [200, 204] (Some \<lparr>StatusCode = 204\<rparr>, None) True \<and>
   sendRequest [200, 204] (Some \<lparr>StatusCode = 204\<rparr>, None) True =
     ([DoRequest, SendOutcome True], Returned, True) \<and>
   sendRequest [200, 204] (Some \<lparr>StatusCode = 404\<rparr>, None) True =
     ([DoRequest, SendOutcome False], Returned, True)"
proof -
  have h: "set [204, 200 :: go_int] = set [200, 204]" by auto
  from outcome_is_membership [of "[200, 204]" "\<lparr>StatusCode = 204\<rparr>" True "[204, 200]"] h
    outcome_is_membership [of "[200, 204]" "\<lparr>StatusCode = 404\<rparr>" True "[204, 200]"]
  show ?thesis by simp
qed

text \<open>
  Claim C2 does not hold of the code. When \<^verbatim>\<open>h.Do\<close> returns an error and the controller
  takes it from \<^verbatim>\<open>fatal\<close>, \<^verbatim>\<open>sendRequest\<close> goes on to line 135: with a nil response it
  panics on the dereference, and with a response it also sends an outcome.
\<close>

theorem transport_error_falls_through:
  "sendRequest okCodes (None, Some e) True =
     ([DoRequest, SendFatal e], Panicked NilDereference, False) \<and>
   sendRequest okCodes (Some r, Some e) True =
     ([DoRequest, SendFatal e, SendOutcome (StatusCode r \<in> set okCodes)], Returned, False)"
  by (simp add: sendRequest_error_nil sendRequest_error_response)

text \<open>
  Claim C6 does not hold of the code. The loop of \<^verbatim>\<open>sendNRequests\<close> has no test that
  would end a batch early, but the attempt that sends its error on \<^verbatim>\<open>fatal\<close> goes on to
  dereference the nil response (line 135) and panics, so the iterations that remain are
  not executed: a batch of 2 against a server that refuses the connection makes one call
  of \<^verbatim>\<open>h.Do\<close>, sends the error, and ends in the panic.
\<close>

theorem batch_ends_in_panic_after_fatal:
  "sendNRequests [200] refused 2 True =
     ([DoRequest, SendFatal ''connection refused''], Panicked NilDereference, False) \<and>
   requests_issued (fst (sendNRequests [200] refused 2 True)) = 1"
proof -
  have "sendNRequests [200] refused 2 True =
     ([DoRequest, SendFatal ''connection refused''], Panicked NilDereference, False)"
    by code_simp
  then show ?thesis by (simp add: requests_issued_def)
qed

section \<open>Three ticks at five requests per second\<close>

lemma sendNRequests_all_ok:
  assumes "code \<in> set okCodes" "0 \<le> sint n"
    "\<forall>k. \<exists>r. reply k = (Some r, None) \<and> StatusCode r = code"
  shows "sendNRequests okCodes reply n w =
           (concat (replicate (nat (sint n)) [DoRequest, SendOutcome True]), Returned, w)"
proof -
  have "(\<lambda>k. fst (sendRequest okCodes (reply k) w)) = (\<lambda>k. [DoRequest, SendOutcome True])"
  proof
    fix k
    from assms(3) obtain r where "reply k = (Some r, None)" "StatusCode r = code" by blast
    then show "fst (sendRequest okCodes (reply k) w) = [DoRequest, SendOutcome True]"
      using assms(1) by (simp add: sendRequest_completed)
  qed
  moreover have "\<forall>k < nat (sint n). \<exists>r. reply k = (Some r, None)"
    using assms(3) by blast
  ultimately show ?thesis
    using sendNRequests_completed [OF assms(2), of reply okCodes w]
    by (simp add: map_replicate_const)
qed

lemma tick_5: "tick 5 = Inr [5]"
  by code_simp

text \<open>
  Claim C8. At the target rate 5 a tick starts exactly one worker, with batch size
  \<open>5 = min 20 (5 mod 20)\<close>. When every reply is a response with status code 200 and 200 is
  among \<^verbatim>\<open>okCodes\<close>, three ticks issue 15 requests, and the aggregator, having consumed
  their outcomes, has \<^verbatim>\<open>okCount\<close> 15 and \<^verbatim>\<open>errCount\<close> 0.
\<close>

theorem five_per_second_three_ticks:
  assumes "200 \<in> set okCodes"
    "\<forall>t w k. \<exists>r. replies t w k = (Some r, None) \<and> StatusCode r = 200"
  shows "tick 5 = Inr [5] \<and> sint (5 :: go_int) = min 20 (5 mod 20) \<and>
         (\<exists>acts. run_ticks okCodes 5 replies 0 3 waiting = (acts, None, waiting) \<and>
            requests_issued acts = 15 \<and>
            aggregator no_responses (outcomes acts) = \<lparr>okCount = 15, errCount = 0\<rparr>)"
proof -
  have w: "sendNRequests okCodes (replies t 0) 5 waiting =
      (concat (replicate 5 [DoRequest, SendOutcome True]), Returned, waiting)" for t
    using sendNRequests_all_ok [OF assms(1), of 5 "replies t 0" waiting] assms(2) by simp
  define X where "X = concat (replicate 5 [DoRequest, SendOutcome True])"
  have x: "requests_issued X = 5" "outcomes X = [True, True, True, True, True]"
    by (simp_all add: X_def requests_issued_def eval_nat_numeral)
  have "run_ticks okCodes 5 replies 0 (Suc (Suc (Suc 0))) waiting = (X @ X @ X, None, waiting)"
    by (simp add: tick_5 w X_def)
  then have r: "run_ticks okCodes 5 replies 0 3 waiting = (X @ X @ X, None, waiting)"
    by (simp only: numeral_3_eq_3)
  show ?thesis
    unfolding r by (simp add: tick_5 requests_issued_append outcomes_append x no_responses_def)
qed

text \<open>The theorem for the default \<^verbatim>\<open>okCodes\<close>, the list with the one code 200.\<close>

theorem five_per_second_three_ticks_witness:
  "200 \<in> set [200 :: go_int] \<and> tick 5 = Inr [5] \<and>
   aggregator no_responses (outcomes (fst (run_ticks [200] 5 always_200 0 3 True)))
     = \<lparr>okCount = 15, errCount = 0\<rparr>"
proof -
  have h: "200 \<in> set [200 :: go_int]"
    "\<forall>t w k. \<exists>r. always_200 t w k = (Some r, None) \<and> StatusCode r = 200"
    by (simp_all add: always_200_def)
  from five_per_second_three_ticks [OF h, of True] show ?thesis by auto
qed


end
